theory Spec2Isabelle
  imports Main
begin

section \<open>The suggestion popup of obsidian-completr (src/popup.ts)\<close>

text \<open>
  A shallow embedding of the class \<open>SuggestionPopup\<close>. The object \<open>this\<close> is a record
  that every method takes and returns. The host editor, the console, the snippet manager,
  the JavaScript \<open>RegExp\<close> constructor and the suggestion providers are not part of the
  file: each call the class makes to one of them is appended, in program order, to the
  field \<open>trace\<close> of the record, and what such a call returns is taken from a parameter.
  An exception is a value \<open>Inl e\<close> of a sum type.

  Strings are lists of characters; one \<open>char\<close> stands for one UTF-16 code unit of a
  JavaScript string, so that \<open>length\<close> is JavaScript's \<open>.length\<close>.
\<close>

subsection \<open>Data\<close>

text \<open>\<open>EditorPosition\<close>: \<open>{line, ch}\<close>, two JavaScript numbers.\<close>

record position =
  line :: int
  ch :: int

text \<open>
  \<open>Suggestion\<close> is \<open>string | {displayName, replacement, overrideStart?}\<close>. An absent
  \<open>overrideStart\<close> is \<open>None\<close>; a present one is an object and therefore truthy.
\<close>

datatype suggestion =
  Plain string
| Rich (displayName: string) (replacement: string) (overrideStart: "position option")

text \<open>
  \<open>EditorSuggestTriggerInfo\<close>: \<open>{start, end, query}\<close>. The host's \<open>EditorSuggestContext\<close>
  adds the editor and the file, which the model keeps outside the record (calls to the
  editor are trace entries). The context that a provider receives adds \<open>separatorChar\<close>.
\<close>

record trigger_info =
  start :: position
  end_pos :: position
  query :: string

record provider_context = trigger_info +
  separatorChar_of :: "string option"

text \<open>\<open>CompletrSettings\<close>, the three fields that popup.ts reads.\<close>

record settings =
  insertionKey :: string
  characterRegex_setting :: string
  maxLookBackDistance :: nat

text \<open>Exceptions: those JavaScript raises itself, and whatever a provider throws.\<close>

datatype error = SyntaxError | TypeError | Thrown string

text \<open>
  A \<open>SuggestionProvider\<close>: the flag \<open>blocksAllOtherProviders\<close> (absent is false) and the
  method \<open>getSuggestions(context, settings)\<close>, which returns an array or throws. A
  returned value that cannot be iterated makes the spread of line 57 throw a TypeError, so
  it is an \<open>Inl\<close> as well.
\<close>

record provider =
  blocksAllOtherProviders :: bool
  provider_getSuggestions :: "provider_context \<Rightarrow> settings \<Rightarrow> error + suggestion list"

text \<open>
  The host's key scope (\<open>self.scope\<close>): a list \<open>keys\<close> of handlers. \<open>register\<close> creates a
  new handler object, appends it and returns it; \<open>unregister\<close> removes the handler it is
  given, found by identity, and removes nothing when given \<open>undefined\<close>. Object identity is
  a number drawn from the counter \<open>fresh\<close>. The callback of a handler is either one of the
  host's own or the one popup.ts registers (lines 133-136), which calls
  \<open>suggestions.useSelectedItem(event)\<close> and returns false.
\<close>

datatype callback = HostCallback | UseSelectedItem

record handler =
  handler_id :: nat
  modifiers :: "string list"
  key :: string
  func :: callback

record scope =
  keys :: "handler list"
  fresh :: nat

definition register :: "string list \<Rightarrow> string \<Rightarrow> callback \<Rightarrow> scope \<Rightarrow> handler \<times> scope" where
  "register ms k f sc =
     (let h = \<lparr>handler_id = fresh sc, modifiers = ms, key = k, func = f\<rparr>
      in (h, sc\<lparr>keys := keys sc @ [h], fresh := Suc (fresh sc)\<rparr>))"

definition unregister :: "handler option \<Rightarrow> scope \<Rightarrow> scope" where
  "unregister ho sc =
     (case ho of
        None \<Rightarrow> sc
      | Some h \<Rightarrow> sc\<lparr>keys := filter (\<lambda>k. handler_id k \<noteq> handler_id h) (keys sc)\<rparr>)"

text \<open>The calls that leave the class, in the order the program makes them.\<close>

datatype effect =
  NewRegExp string string
| CallProvider nat
| ReplaceRange string position position
| SetCursor position
| HandleSnippet string position
| ConsoleLog "string list"
| Close

text \<open>
  The JavaScript regular expression engine, as far as popup.ts uses it: the constructor
  \<open>new RegExp(source, flags)\<close>, which throws on a malformed source, and \<open>test\<close>.
\<close>

record 'r regexp_engine =
  new_RegExp :: "string \<Rightarrow> string \<Rightarrow> error + 'r"
  regexp_test :: "'r \<Rightarrow> string \<Rightarrow> bool"

text \<open>
  The fields of \<open>SuggestionPopup\<close>. A field that is \<open>undefined\<close> until first assigned is
  an option; \<open>justClosed\<close> is only ever tested for truth, so \<open>undefined\<close> is \<open>False\<close>.
  \<open>scope\<close> and \<open>context_obj\<close> (\<open>this.context\<close>) are inherited from the host's
  \<open>EditorSuggest\<close>; the host installs \<open>this.context\<close> before it calls \<open>getSuggestions\<close> or
  \<open>selectSuggestion\<close>, so the record always holds one.
\<close>

record 'r popup =
  justClosed :: bool
  separatorChar :: "string option"
  characterRegex :: "string option"
  compiledCharacterRegex :: "'r option"
  insertionKeybindRegistration :: "handler option"
  settings :: settings
  disableSnippets :: bool
  scope :: scope
  context_obj :: trigger_info
  trace :: "effect list"

subsection \<open>The character-class cache (lines 146-151)\<close>

text \<open>
  \<open>if (this.characterRegex !== this.settings.characterRegex)
       this.compiledCharacterRegex = new RegExp("[" + this.settings.characterRegex + "]", "u");
     return this.compiledCharacterRegex;\<close>
  The only assignment is to \<open>compiledCharacterRegex\<close>.
\<close>

definition getCharacterRegex ::
  "'r regexp_engine \<Rightarrow> 'r popup \<Rightarrow> (error + 'r option) \<times> 'r popup" where
  "getCharacterRegex E this =
     (if characterRegex this \<noteq> Some (characterRegex_setting (settings this))
      then
        (let src = ''['' @ characterRegex_setting (settings this) @ '']'';
             this1 = this\<lparr>trace := trace this @ [NewRegExp src ''u'']\<rparr>
         in case new_RegExp E src ''u'' of
              Inl e \<Rightarrow> (Inl e, this1)
            | Inr r \<Rightarrow> (Inr (Some r), this1\<lparr>compiledCharacterRegex := Some r\<rparr>))
      else (Inr (compiledCharacterRegex this), this))"

subsection \<open>The accept-key binder (lines 128-144)\<close>

text \<open>
  \<open>disableInsertionKey\<close>: \<open>if (this.insertionKeybindRegistration)
  self.scope.unregister(this.insertionKeybindRegistration);\<close> The field is not cleared.
\<close>

definition disableInsertionKey :: "'r popup \<Rightarrow> 'r popup" where
  "disableInsertionKey this =
     (if insertionKeybindRegistration this \<noteq> None
      then this\<lparr>scope := unregister (insertionKeybindRegistration this) (scope this)\<rparr>
      else this)"

text \<open>
  \<open>setInsertionKey(key)\<close>: disable, \<open>console.log("Set", key)\<close>, then register the key
  with no modifiers and keep the handler that \<open>register\<close> returns.
\<close>

definition setInsertionKey :: "string \<Rightarrow> 'r popup \<Rightarrow> 'r popup" where
  "setInsertionKey k this =
     (let this1 = disableInsertionKey this;
          this2 = this1\<lparr>trace := trace this1 @ [ConsoleLog [''Set'', k]]\<rparr>;
          (h, sc) = register [] k UseSelectedItem (scope this2)
      in this2\<lparr>insertionKeybindRegistration := Some h, scope := sc\<rparr>)"

text \<open>
  The constructor (lines 37-49), applied to the object as \<open>super(app)\<close> leaves it.
  \<open>legacyEditor\<close> is the truth value of \<open>app.vault.config?.legacyEditor\<close>. The default
  Enter handler is looked up with \<open>keys.find\<close> (which may find none) and unregistered, then
  the configured key is set.
\<close>

definition constructor :: "bool \<Rightarrow> settings \<Rightarrow> 'r popup \<Rightarrow> 'r popup" where
  "constructor legacyEditor settings0 this =
     (let this1 = this\<lparr>disableSnippets := legacyEditor, settings := settings0\<rparr>;
          this2 = this1\<lparr>scope :=
                    unregister (find (\<lambda>k. key k = ''Enter'') (keys (scope this1))) (scope this1)\<rparr>
      in setInsertionKey (insertionKey settings0) this2)"

text \<open>The custom accept-key registrations that are active in a scope.\<close>

definition accept_bindings :: "scope \<Rightarrow> handler list" where
  "accept_bindings sc = filter (\<lambda>h. func h = UseSelectedItem) (keys sc)"

subsection \<open>Collecting suggestions (lines 51-75)\<close>

text \<open>
  The callback of the \<open>forEach\<close> (lines 64-68): a plain string or a candidate without
  \<open>overrideStart\<close> returns at once, any other assigns \<open>this.context.start\<close>.
\<close>

fun apply_overrideStart :: "'r popup \<Rightarrow> suggestion \<Rightarrow> 'r popup" where
  "apply_overrideStart this (Plain s) = this"
| "apply_overrideStart this (Rich d r None) = this"
| "apply_overrideStart this (Rich d r (Some p)) =
     this\<lparr>context_obj := (context_obj this)\<lparr>start := p\<rparr>\<rparr>"

text \<open>
  What a provider is given as its context: \<open>{...context, separatorChar:
  this.separatorChar}\<close> (lines 57-60).
\<close>

definition context_for :: "trigger_info \<Rightarrow> 'r popup \<Rightarrow> provider_context" where
  "context_for context this =
     \<lparr>start = start context, end_pos = end_pos context, query = query context,
      separatorChar_of = separatorChar this\<rparr>"

text \<open>How the \<open>for\<close> loop ends: the list is exhausted, or the \<open>break\<close> of line 70.\<close>

datatype loop_result = Completed "suggestion list" | Broke "suggestion list"

text \<open>
  The loop over \<open>PROVIDERS\<close>, from the provider at index \<open>i\<close> on, with the suggestions
  accumulated so far. Each provider is called with its context and the settings; what
  it returns is spread after the accumulated suggestions. There is no \<open>try\<close>: an exception leaves the method. The argument
  \<open>context\<close> is read only before the one assignment to \<open>this.context.start\<close>, after
  which the loop ends, so it does not matter whether the two are the same object.
\<close>

fun provider_loop ::
  "nat \<Rightarrow> provider list \<Rightarrow> trigger_info \<Rightarrow> suggestion list \<Rightarrow> 'r popup
     \<Rightarrow> (error + loop_result) \<times> 'r popup" where
  "provider_loop i [] context suggestions this = (Inr (Completed suggestions), this)"
| "provider_loop i (p # ps) context suggestions this =
     (let this1 = this\<lparr>trace := trace this @ [CallProvider i]\<rparr>
      in case provider_getSuggestions p (context_for context this1) (settings this1) of
           Inl e \<Rightarrow> (Inl e, this1)
         | Inr new \<Rightarrow>
             (let suggestions1 = suggestions @ new
              in if blocksAllOtherProviders p \<and> length suggestions1 > 0
                 then (Inr (Broke suggestions1), foldl apply_overrideStart this1 suggestions1)
                 else provider_loop (Suc i) ps context suggestions1 this1))"

definition getSuggestions ::
  "provider list \<Rightarrow> trigger_info \<Rightarrow> 'r popup \<Rightarrow> (error + suggestion list) \<times> 'r popup" where
  "getSuggestions PROVIDERS context this =
     (case provider_loop 0 PROVIDERS context [] this of
        (Inl e, this1) \<Rightarrow> (Inl e, this1)
      | (Inr (Completed suggestions), this1) \<Rightarrow> (Inr suggestions, this1)
      | (Inr (Broke suggestions), this1) \<Rightarrow> (Inr suggestions, this1))"

text \<open>The last \<open>overrideStart\<close> among a list of candidates, if there is any.\<close>

fun last_overrideStart :: "suggestion list \<Rightarrow> position option" where
  "last_overrideStart [] = None"
| "last_overrideStart (Plain s # xs) = last_overrideStart xs"
| "last_overrideStart (Rich d r o1 # xs) =
     (case last_overrideStart xs of Some p \<Rightarrow> Some p | None \<Rightarrow> o1)"

subsection \<open>Trigger detection (lines 77-97)\<close>

text \<open>
  The predicate handed to \<open>matchWordBackwards\<close>:
  \<open>(char) => this.getCharacterRegex().test(char)\<close>. Calling \<open>test\<close> on \<open>undefined\<close> is a
  TypeError.
\<close>

definition charPredicate ::
  "'r regexp_engine \<Rightarrow> string \<Rightarrow> 'r popup \<Rightarrow> (error + bool) \<times> 'r popup" where
  "charPredicate E c this =
     (case getCharacterRegex E this of
        (Inl e, this1) \<Rightarrow> (Inl e, this1)
      | (Inr None, this1) \<Rightarrow> (Inl TypeError, this1)
      | (Inr (Some r), this1) \<Rightarrow> (Inr (regexp_test E r c), this1))"

text \<open>
  \<open>matchWordBackwards\<close> (editor_helpers) is a parameter of \<open>onTrigger\<close>: a function of the
  editor, the cursor, the predicate and the look-back bound that returns \<open>{query,
  separatorChar}\<close>. It runs the predicate on the popup, so it takes and returns the popup.
\<close>

type_synonym ('e, 'r) matcher =
  "'e \<Rightarrow> position \<Rightarrow> (string \<Rightarrow> 'r popup \<Rightarrow> (error + bool) \<times> 'r popup) \<Rightarrow> nat \<Rightarrow> 'r popup
     \<Rightarrow> (error + string \<times> string) \<times> 'r popup"

text \<open>
  \<open>onTrigger(cursor, editor, file)\<close>; \<open>file\<close> is not used. \<open>None\<close> is \<open>null\<close>.
\<close>

definition onTrigger ::
  "'r regexp_engine \<Rightarrow> ('e, 'r) matcher \<Rightarrow> position \<Rightarrow> 'e \<Rightarrow> 'r popup
     \<Rightarrow> (error + trigger_info option) \<times> 'r popup" where
  "onTrigger E matchWordBackwards cursor editor this =
     (if justClosed this then (Inr None, this\<lparr>justClosed := False\<rparr>)
      else
        (case matchWordBackwards editor cursor (charPredicate E)
                (maxLookBackDistance (settings this)) this of
           (Inl e, this1) \<Rightarrow> (Inl e, this1)
         | (Inr (q, sep), this1) \<Rightarrow>
             (Inr (Some \<lparr>start = cursor\<lparr>ch := ch cursor - int (length q)\<rparr>,
                         end_pos = cursor, query = q\<rparr>),
              this1\<lparr>separatorChar := Some sep\<rparr>)))"

subsection \<open>Accepting a suggestion (lines 104-126)\<close>

text \<open>
  Modelled from the spec: \<open>getSuggestionReplacement\<close> of provider/provider.ts, which is
  not among the sources. The spec describes it as the accessor for the replacement text
  that pattern-matches the two cases of a suggestion: the plain text itself, or the
  field \<open>replacement\<close> of a structured candidate.
\<close>

fun getSuggestionReplacement :: "suggestion \<Rightarrow> string" where
  "getSuggestionReplacement (Plain s) = s"
| "getSuggestionReplacement (Rich d r o1) = r"

text \<open>\<open>replacement.contains(c)\<close> for a string \<open>c\<close> of one character.\<close>

definition contains :: "string \<Rightarrow> char \<Rightarrow> bool" where
  "contains s c = (c \<in> set s)"

text \<open>
  Line 106: \<open>typeof value !== "string" && value.overrideStart ? value.overrideStart :
  this.context.start\<close>.
\<close>

fun insertion_start :: "suggestion \<Rightarrow> 'r popup \<Rightarrow> position" where
  "insertion_start (Plain s) this = start (context_obj this)"
| "insertion_start (Rich d r None) this = start (context_obj this)"
| "insertion_start (Rich d r (Some p)) this = p"

text \<open>
  \<open>selectSuggestion(value, evt)\<close>; \<open>evt\<close> is not used. The calls to the editor, the
  snippet manager, the console and \<open>this.close()\<close> are trace entries.
\<close>

definition selectSuggestion :: "suggestion \<Rightarrow> 'r popup \<Rightarrow> 'r popup" where
  "selectSuggestion value this =
     (let replacement = getSuggestionReplacement value;
          start1 = insertion_start value this;
          this1 = this\<lparr>trace := trace this
                    @ [ReplaceRange replacement start1 (end_pos (context_obj this))]\<rparr>;
          this2 =
            (if contains replacement CHR ''#'' \<or> contains replacement CHR ''~''
             then
               (if \<not> disableSnippets this1
                then this1\<lparr>trace := trace this1 @ [HandleSnippet replacement start1]\<rparr>
                else this1\<lparr>trace := trace this1 @ [ConsoleLog
                       [''Completr: Please enable Live Preview mode to use snippets'']]\<rparr>)
             else this1\<lparr>trace := trace this1
                    @ [SetCursor (start1\<lparr>ch := ch start1 + int (length replacement)\<rparr>)]\<rparr>);
          this3 = this2\<lparr>trace := trace this2 @ [Close]\<rparr>
      in this3\<lparr>justClosed := True\<rparr>)"

definition preventNextTrigger :: "'r popup \<Rightarrow> 'r popup" where
  "preventNextTrigger this = this\<lparr>justClosed := True\<rparr>"


subsection \<open>Reading the trace\<close>

text \<open>The calls made between an earlier state and a later one.\<close>

definition calls_made :: "'r popup \<Rightarrow> 'r popup \<Rightarrow> effect list" where
  "calls_made this this1 = drop (length (trace this)) (trace this1)"

fun is_ReplaceRange :: "effect \<Rightarrow> bool" where
  "is_ReplaceRange (ReplaceRange r s e) = True"
| "is_ReplaceRange x = False"

fun is_NewRegExp :: "effect \<Rightarrow> bool" where
  "is_NewRegExp (NewRegExp src fl) = True"
| "is_NewRegExp x = False"

subsection \<open>The word-boundary matcher\<close>

text \<open>
  Modelled from the spec: \<open>matchWordBackwards\<close> of editor_helpers.ts, which is not among
  the sources. The spec (4.1): starting at the cursor, walk backward character by
  character while the predicate holds, accumulating the characters into the query in
  their original order, and stop at the first character for which the predicate is
  false, at a line start, or after \<open>maxLookback\<close> characters have been examined. The
  character immediately before the matched span, if there is one and the scan did not hit
  \<open>maxLookback\<close>, is the separator; at a line start the separator is empty. The editor
  is the list of its lines. The second argument of \<open>scan_backwards\<close> is the text before
  the cursor, nearest character first.
\<close>

fun scan_backwards ::
  "(string \<Rightarrow> 's \<Rightarrow> (error + bool) \<times> 's) \<Rightarrow> string \<Rightarrow> nat \<Rightarrow> string \<Rightarrow> 's
     \<Rightarrow> (error + string \<times> string) \<times> 's" where
  "scan_backwards isWordChar [] n q s = (Inr (q, []), s)"
| "scan_backwards isWordChar (c # left) 0 q s = (Inr (q, []), s)"
| "scan_backwards isWordChar (c # left) (Suc n) q s =
     (case isWordChar [c] s of
        (Inl e, s1) \<Rightarrow> (Inl e, s1)
      | (Inr True, s1) \<Rightarrow> scan_backwards isWordChar left n (c # q) s1
      | (Inr False, s1) \<Rightarrow> (Inr (q, [c]), s1))"

definition line_text :: "string list \<Rightarrow> int \<Rightarrow> string" where
  "line_text editor l = (if 0 \<le> l \<and> nat l < length editor then editor ! nat l else [])"

definition matchWordBackwards ::
  "string list \<Rightarrow> position \<Rightarrow> (string \<Rightarrow> 's \<Rightarrow> (error + bool) \<times> 's) \<Rightarrow> nat \<Rightarrow> 's
     \<Rightarrow> (error + string \<times> string) \<times> 's" where
  "matchWordBackwards editor cursor isWordChar maxLookback s =
     scan_backwards isWordChar
       (rev (take (nat (ch cursor)) (line_text editor (line cursor)))) maxLookback [] s"

subsection \<open>A concrete host for the examples\<close>

text \<open>
  An engine that compiles every source to itself and understands a character class made
  of single characters and ranges \<open>a-b\<close>; providers, settings and the object that
  \<open>super(app)\<close> hands to the constructor, with the host's own handlers in its scope.
\<close>

fun class_member :: "string \<Rightarrow> char \<Rightarrow> bool" where
  "class_member (a # CHR ''-'' # b # rest) x =
     ((of_char a \<le> (of_char x :: nat) \<and> of_char x \<le> (of_char b :: nat)) \<or> class_member rest x)"
| "class_member (a # rest) x = (a = x \<or> class_member rest x)"
| "class_member [] x = False"

definition example_engine :: "string regexp_engine" where
  "example_engine =
     \<lparr>new_RegExp = (\<lambda>src fl. Inr src),
      regexp_test = (\<lambda>r c. case c of [x] \<Rightarrow> class_member (butlast (tl r)) x | _ \<Rightarrow> False)\<rparr>"

definition example_settings :: settings where
  "example_settings =
     \<lparr>insertionKey = ''Enter'', characterRegex_setting = ''a-zA-Z'', maxLookBackDistance = 50\<rparr>"

definition host_scope :: scope where
  "host_scope =
     \<lparr>keys = [\<lparr>handler_id = 0, modifiers = [], key = ''ArrowUp'', func = HostCallback\<rparr>,
              \<lparr>handler_id = 1, modifiers = [], key = ''ArrowDown'', func = HostCallback\<rparr>,
              \<lparr>handler_id = 2, modifiers = [], key = ''Enter'', func = HostCallback\<rparr>,
              \<lparr>handler_id = 3, modifiers = [], key = ''Escape'', func = HostCallback\<rparr>],
      fresh = 4\<rparr>"

definition example_context :: trigger_info where
  "example_context =
     \<lparr>start = \<lparr>line = 0, ch = 4\<rparr>, end_pos = \<lparr>line = 0, ch = 6\<rparr>, query = ''qu''\<rparr>"

definition super_object :: "string popup" where
  "super_object =
     \<lparr>justClosed = False, separatorChar = None, characterRegex = None,
      compiledCharacterRegex = None, insertionKeybindRegistration = None,
      settings = example_settings, disableSnippets = False, scope = host_scope,
      context_obj = example_context, trace = []\<rparr>"

definition example_popup :: "string popup" where
  "example_popup = (constructor False example_settings super_object)\<lparr>trace := []\<rparr>"

definition throwing_provider :: provider where
  "throwing_provider =
     \<lparr>blocksAllOtherProviders = False,
      provider_getSuggestions = (\<lambda>c s. Inl (Thrown ''broken source''))\<rparr>"

definition word_provider :: provider where
  "word_provider =
     \<lparr>blocksAllOtherProviders = False,
      provider_getSuggestions = (\<lambda>c s. Inr [Plain ''query'', Plain ''quest''])\<rparr>"

definition latex_provider :: provider where
  "latex_provider =
     \<lparr>blocksAllOtherProviders = True,
      provider_getSuggestions =
        (\<lambda>c s. if query c = ''qu''
               then Inr [Rich ''frac'' ''frac{#}{#}'' (Some \<lparr>line = 0, ch = 3\<rparr>)]
               else Inr [])\<rparr>"

definition file_provider :: provider where
  "file_provider =
     \<lparr>blocksAllOtherProviders = False,
      provider_getSuggestions = (\<lambda>c s. Inr [Plain ''quiet''])\<rparr>"

section \<open>Properties\<close>

subsection \<open>The character-class cache\<close>

lemma getCharacterRegex_keeps_key:
  "characterRegex (snd (getCharacterRegex E this)) = characterRegex this"
  by (simp add: getCharacterRegex_def Let_def split: sum.splits)

subsection \<open>The trace and the context under the loop\<close>

lemma trace_foldl_apply [simp]: "trace (foldl apply_overrideStart t xs) = trace t"
proof (induction xs arbitrary: t)
  case Nil then show ?case by simp
next
  case (Cons x xs)
  then show ?case by (cases "(t, x)" rule: apply_overrideStart.cases) auto
qed

lemma context_for_trace [simp]: "context_for c (t\<lparr>trace := tr\<rparr>) = context_for c t"
  by (simp add: context_for_def)

lemma context_obj_foldl_apply:
  "context_obj (foldl apply_overrideStart t xs) =
     (case last_overrideStart xs of
        None \<Rightarrow> context_obj t
      | Some p \<Rightarrow> (context_obj t)\<lparr>start := p\<rparr>)"
proof (induction xs arbitrary: t)
  case Nil then show ?case by simp
next
  case (Cons x xs)
  show ?case
    by (cases "(t, x)" rule: apply_overrideStart.cases)
       (auto simp: Cons.IH split: option.splits)
qed

lemma last_overrideStart_append:
  "last_overrideStart (xs @ ys) =
     (case last_overrideStart ys of Some p \<Rightarrow> Some p | None \<Rightarrow> last_overrideStart xs)"
proof (induction xs)
  case Nil
  then show ?case by (simp split: option.splits)
next
  case (Cons x xs)
  then show ?case by (cases x) (auto split: option.splits)
qed

lemma getSuggestions_snd:
  "snd (getSuggestions ps c t) = snd (provider_loop 0 ps c [] t)"
  by (simp add: getSuggestions_def split: prod.splits sum.splits loop_result.splits)

lemma getSuggestions_fst_Inl:
  "fst (provider_loop 0 ps c [] t) = Inl e \<Longrightarrow> fst (getSuggestions ps c t) = Inl e"
  by (auto simp: getSuggestions_def split: prod.splits sum.splits loop_result.splits)

lemma calls_made_append: "trace t1 = trace t @ xs \<Longrightarrow> calls_made t t1 = xs"
  by (simp add: calls_made_def)

text \<open>The loop calls the providers in list order, each at most once.\<close>

lemma loop_trace_shape:
  "\<exists>n \<le> length ps. trace (snd (provider_loop i ps c acc t)) = trace t @ map CallProvider [i..<i + n]"
proof (induction ps arbitrary: i acc t)
  case Nil
  then show ?case by simp
next
  case (Cons p ps)
  let ?t1 = "t\<lparr>trace := trace t @ [CallProvider i]\<rparr>"
  show ?case
  proof (cases "provider_getSuggestions p (context_for c t) (settings t)")
    case (Inl e)
    then have "trace (snd (provider_loop i (p # ps) c acc t)) = trace t @ map CallProvider [i..<i + 1]"
      by simp
    then show ?thesis by (metis One_nat_def Suc_leI length_Cons zero_less_Suc)
  next
    case (Inr new)
    show ?thesis
    proof (cases "blocksAllOtherProviders p \<and> acc @ new \<noteq> []")
      case True
      with Inr have "trace (snd (provider_loop i (p # ps) c acc t)) = trace t @ map CallProvider [i..<i + 1]"
        by (auto simp: Let_def)
      then show ?thesis by (metis One_nat_def Suc_leI length_Cons zero_less_Suc)
    next
      case False
      with Inr have eq: "provider_loop i (p # ps) c acc t = provider_loop (Suc i) ps c (acc @ new) ?t1"
        by (auto simp: Let_def)
      from Cons.IH [of "Suc i" "acc @ new" ?t1]
      obtain n where n: "n \<le> length ps"
        "trace (snd (provider_loop (Suc i) ps c (acc @ new) ?t1)) = trace ?t1 @ map CallProvider [Suc i..<Suc i + n]"
        by blast
      have "trace (snd (provider_loop i (p # ps) c acc t)) = trace t @ map CallProvider [i..<i + Suc n]"
        using n(2) eq by (simp add: upt_rec [of i])
      with n(1) show ?thesis by (metis Suc_le_mono length_Cons)
    qed
  qed
qed

text \<open>
  A blocking provider at position \<open>k\<close> that returns a candidate: the loop calls no
  provider beyond it.
\<close>

lemma provider_loop_blocking:
  assumes "k < length ps" "blocksAllOtherProviders (ps ! k)"
    "provider_getSuggestions (ps ! k) (context_for c t) (settings t) = Inr xs" "xs \<noteq> []"
  shows "\<exists>n \<le> Suc k. trace (snd (provider_loop i ps c acc t)) = trace t @ map CallProvider [i..<i + n]"
  using assms
proof (induction ps arbitrary: i k acc t)
  case Nil
  then show ?case by simp
next
  case (Cons p ps)
  let ?t1 = "t\<lparr>trace := trace t @ [CallProvider i]\<rparr>"
  have one: "trace (snd (provider_loop i (p # ps) c acc t)) = trace t @ map CallProvider [i..<i + 1]
      \<Longrightarrow> ?case"
    by (metis One_nat_def Suc_le_mono le0)
  show ?case
  proof (cases "provider_getSuggestions p (context_for c t) (settings t)")
    case (Inl e)
    then show ?thesis by (intro one) simp
  next
    case (Inr new)
    show ?thesis
    proof (cases "blocksAllOtherProviders p \<and> acc @ new \<noteq> []")
      case True
      with Inr show ?thesis by (intro one) (auto simp: Let_def)
    next
      case False
      with Inr have eq: "provider_loop i (p # ps) c acc t = provider_loop (Suc i) ps c (acc @ new) ?t1"
        by (auto simp: Let_def)
      from False Inr Cons.prems obtain k' where k': "k = Suc k'"
        by (cases k) auto
      with Cons.prems have "k' < length ps" "blocksAllOtherProviders (ps ! k')"
        "provider_getSuggestions (ps ! k') (context_for c ?t1) (settings ?t1) = Inr xs"
        by simp_all
      from Cons.IH [OF this \<open>xs \<noteq> []\<close>, of "Suc i" "acc @ new"]
      obtain n where n: "n \<le> Suc k'"
        "trace (snd (provider_loop (Suc i) ps c (acc @ new) ?t1)) = trace ?t1 @ map CallProvider [Suc i..<Suc i + n]"
        by blast
      have "trace (snd (provider_loop i (p # ps) c acc t)) = trace t @ map CallProvider [i..<i + Suc n]"
        using n(2) eq by (simp add: upt_rec [of i])
      with n(1) k' show ?thesis by (metis Suc_le_mono)
    qed
  qed
qed

text \<open>A provider that is called and throws ends the loop with its exception.\<close>

lemma provider_loop_throw:
  assumes "k < length ps"
    "provider_getSuggestions (ps ! k) (context_for c t) (settings t) = Inl e"
    "CallProvider (i + k) \<in> set (drop (length (trace t)) (trace (snd (provider_loop i ps c acc t))))"
  shows "fst (provider_loop i ps c acc t) = Inl e
       \<and> trace (snd (provider_loop i ps c acc t)) = trace t @ map CallProvider [i..<i + Suc k]"
  using assms
proof (induction ps arbitrary: i k acc t)
  case Nil
  then show ?case by simp
next
  case (Cons p ps)
  let ?t1 = "t\<lparr>trace := trace t @ [CallProvider i]\<rparr>"
  show ?case
  proof (cases k)
    case 0
    with Cons.prems show ?thesis by simp
  next
    case (Suc k')
    show ?thesis
    proof (cases "provider_getSuggestions p (context_for c t) (settings t)")
      case (Inl e')
      with Cons.prems(3) Suc show ?thesis by simp
    next
      case (Inr new)
      show ?thesis
      proof (cases "blocksAllOtherProviders p \<and> acc @ new \<noteq> []")
        case True
        with Inr Cons.prems(3) Suc show ?thesis by (auto simp: Let_def)
      next
        case False
        with Inr have eq: "provider_loop i (p # ps) c acc t = provider_loop (Suc i) ps c (acc @ new) ?t1"
          by (auto simp: Let_def)
        from Cons.prems Suc have a: "k' < length ps"
          "provider_getSuggestions (ps ! k') (context_for c ?t1) (settings ?t1) = Inl e"
          by simp_all
        have sh: "\<exists>n. trace (snd (provider_loop (Suc i) ps c (acc @ new) ?t1)) = trace ?t1 @ n"
          using loop_trace_shape [of ps "Suc i" c "acc @ new" ?t1] by blast
        from Cons.prems(3) Suc eq sh
        have b: "CallProvider (Suc i + k') \<in> set (drop (length (trace ?t1))
                   (trace (snd (provider_loop (Suc i) ps c (acc @ new) ?t1))))"
          by auto
        from Cons.IH [OF a b] eq Suc show ?thesis
          by (simp add: upt_rec [of i])
      qed
    qed
  qed
qed

text \<open>Providers that do not block and all return: the loop runs to the end.\<close>

lemma provider_loop_no_block:
  assumes "list_all2 (\<lambda>p xs. \<not> blocksAllOtherProviders p
             \<and> provider_getSuggestions p pc st = Inr xs) ps xss"
    and "context_for c t = pc" and "settings t = st"
  shows "provider_loop i ps c acc t =
           (Inr (Completed (acc @ concat xss)),
            t\<lparr>trace := trace t @ map CallProvider [i..<i + length ps]\<rparr>)"
  using assms
proof (induction ps xss arbitrary: i acc t rule: list_all2_induct)
  case Nil
  then show ?case by simp
next
  case (Cons p ps xs xss)
  let ?t1 = "t\<lparr>trace := trace t @ [CallProvider i]\<rparr>"
  from Cons.prems have "context_for c ?t1 = pc" "settings ?t1 = st"
    by simp_all
  from Cons.IH [OF this, of "Suc i" "acc @ xs"] Cons.hyps(1) Cons.prems
  show ?case by (simp del: upt_Suc add: upt_conv_Cons)
qed

text \<open>
  \<open>this.context\<close> after the loop: changed only by the \<open>forEach\<close> before the
  \<open>break\<close>, where the last \<open>overrideStart\<close> of the accumulated candidates wins.
\<close>

lemma provider_loop_context:
  "provider_loop i ps c acc t = (res, t1) \<Longrightarrow>
     context_obj t1 =
       (case res of
          Inr (Broke s) \<Rightarrow>
            (case last_overrideStart s of
               None \<Rightarrow> context_obj t
             | Some p \<Rightarrow> (context_obj t)\<lparr>start := p\<rparr>)
        | _ \<Rightarrow> context_obj t)"
proof (induction ps arbitrary: i acc t)
  case Nil
  then show ?case by auto
next
  case (Cons p ps)
  let ?t1 = "t\<lparr>trace := trace t @ [CallProvider i]\<rparr>"
  show ?case
  proof (cases "provider_getSuggestions p (context_for c t) (settings t)")
    case (Inl e)
    with Cons.prems show ?thesis by auto
  next
    case (Inr new)
    show ?thesis
    proof (cases "blocksAllOtherProviders p \<and> acc @ new \<noteq> []")
      case True
      with Inr Cons.prems show ?thesis
        by (auto simp: Let_def context_obj_foldl_apply last_overrideStart_append
            split: option.splits)
    next
      case False
      with Inr Cons.prems have "provider_loop (Suc i) ps c (acc @ new) ?t1 = (res, t1)"
        by (auto simp: Let_def)
      from Cons.IH [OF this] show ?thesis
        by (auto split: sum.splits loop_result.splits option.splits)
    qed
  qed
qed

text \<open>
  The loop leaves through the \<open>break\<close> only after calling a provider that is flagged
  \<open>blocksAllOtherProviders\<close>, with a non-empty accumulated list; a list without flagged
  providers never does.
\<close>

lemma provider_loop_Broke:
  "provider_loop i ps c acc t = (Inr (Broke s), t1) \<Longrightarrow>
     s \<noteq> [] \<and> (\<exists>k < length ps. blocksAllOtherProviders (ps ! k)
                  \<and> trace t1 = trace t @ map CallProvider [i..<i + Suc k])"
proof (induction ps arbitrary: i acc t)
  case Nil
  then show ?case by simp
next
  case (Cons p ps)
  let ?t1 = "t\<lparr>trace := trace t @ [CallProvider i]\<rparr>"
  show ?case
  proof (cases "provider_getSuggestions p (context_for c t) (settings t)")
    case (Inl e)
    with Cons.prems show ?thesis by simp
  next
    case (Inr new)
    show ?thesis
    proof (cases "blocksAllOtherProviders p \<and> acc @ new \<noteq> []")
      case True
      with Inr Cons.prems have "s = acc @ new" "trace t1 = trace t @ [CallProvider i]"
        by (auto simp: Let_def)
      with True show ?thesis by (intro conjI exI [of _ 0]) auto
    next
      case False
      with Inr Cons.prems have "provider_loop (Suc i) ps c (acc @ new) ?t1 = (Inr (Broke s), t1)"
        by (auto simp: Let_def)
      from Cons.IH [OF this] obtain k where k: "s \<noteq> []" "k < length ps"
        "blocksAllOtherProviders (ps ! k)"
        "trace t1 = trace ?t1 @ map CallProvider [Suc i..<Suc i + Suc k]"
        by blast
      from k(4) have "trace t1 = trace t @ map CallProvider [i..<i + Suc (Suc k)]"
        by (simp del: upt_Suc add: upt_conv_Cons)
      with k(1,2,3) show ?thesis by (intro conjI exI [of _ "Suc k"]) auto
    qed
  qed
qed

lemma provider_loop_no_flag_no_break:
  "\<forall>p \<in> set ps. \<not> blocksAllOtherProviders p \<Longrightarrow>
     fst (provider_loop i ps c acc t) \<noteq> Inr (Broke s)"
  using provider_loop_Broke [of i ps c acc t s "snd (provider_loop i ps c acc t)"]
  by (metis nth_mem prod.collapse)

subsection \<open>The matcher, one character at a time\<close>

lemma scan_backwards_Cons:
  "scan_backwards f (c # l) n q s =
     (if n = 0 then (Inr (q, []), s)
      else case f [c] s of
             (Inl e, s1) \<Rightarrow> (Inl e, s1)
           | (Inr True, s1) \<Rightarrow> scan_backwards f l (n - 1) (c # q) s1
           | (Inr False, s1) \<Rightarrow> (Inr (q, [c]), s1))"
  by (cases n) (auto split: prod.splits sum.splits bool.splits)

subsection \<open>The example host, evaluated\<close>

lemma example_popup_eq:
  "example_popup =
     \<lparr>justClosed = False, separatorChar = None, characterRegex = None,
      compiledCharacterRegex = None,
      insertionKeybindRegistration =
        Some \<lparr>handler_id = 4, modifiers = [], key = ''Enter'', func = UseSelectedItem\<rparr>,
      settings = example_settings, disableSnippets = False,
      scope =
        \<lparr>keys = [\<lparr>handler_id = 0, modifiers = [], key = ''ArrowUp'', func = HostCallback\<rparr>,
                 \<lparr>handler_id = 1, modifiers = [], key = ''ArrowDown'', func = HostCallback\<rparr>,
                 \<lparr>handler_id = 3, modifiers = [], key = ''Escape'', func = HostCallback\<rparr>,
                 \<lparr>handler_id = 4, modifiers = [], key = ''Enter'', func = UseSelectedItem\<rparr>],
         fresh = 5\<rparr>,
      context_obj = example_context, trace = []\<rparr>"
  by (simp add: example_popup_def constructor_def setInsertionKey_def disableInsertionKey_def
      register_def unregister_def super_object_def host_scope_def example_settings_def Let_def)

lemmas ex_defs = latex_provider_def word_provider_def file_provider_def throwing_provider_def
  context_for_def example_context_def example_popup_eq getSuggestions_def calls_made_def

subsection \<open>Claims about collection\<close>

text \<open>
  C3. If the provider at position \<open>k\<close> of the priority list is flagged
  \<open>blocksAllOtherProviders\<close> and returns at least one candidate for this trigger, then
  \<open>getSuggestions\<close> calls no provider at a later position: no \<open>CallProvider j\<close> with
  \<open>k < j\<close> is among the calls it makes.
\<close>

theorem getSuggestions_blocking_stops:
  assumes "k < length PROVIDERS"
    and "blocksAllOtherProviders (PROVIDERS ! k)"
    and "provider_getSuggestions (PROVIDERS ! k) (context_for context this) (settings this) = Inr xs"
    and "xs \<noteq> []"
  shows "\<forall>j. k < j \<longrightarrow>
           CallProvider j \<notin> set (calls_made this (snd (getSuggestions PROVIDERS context this)))"
proof -
  from provider_loop_blocking [OF assms, of 0 "[]"]
  obtain n where n: "n \<le> Suc k"
    "trace (snd (provider_loop 0 PROVIDERS context [] this)) = trace this @ map CallProvider [0..<0 + n]"
    by blast
  have "calls_made this (snd (getSuggestions PROVIDERS context this)) = map CallProvider [0..<n]"
    using n(2) by (simp add: getSuggestions_snd calls_made_def)
  with n(1) show ?thesis by auto
qed

theorem getSuggestions_blocking_stops_witness:
  "(1::nat) < length [word_provider, latex_provider, file_provider]
   \<and> blocksAllOtherProviders ([word_provider, latex_provider, file_provider] ! 1)
   \<and> provider_getSuggestions ([word_provider, latex_provider, file_provider] ! 1)
        (context_for example_context example_popup) (settings example_popup)
      = Inr [Rich ''frac'' ''frac{#}{#}'' (Some \<lparr>line = 0, ch = 3\<rparr>)]
   \<and> CallProvider 2 \<notin> set (calls_made example_popup
        (snd (getSuggestions [word_provider, latex_provider, file_provider]
                example_context example_popup)))
   \<and> calls_made example_popup
        (snd (getSuggestions [word_provider, latex_provider, file_provider]
                example_context example_popup)) = [CallProvider 0, CallProvider 1]"
  using getSuggestions_blocking_stops [of 1 "[word_provider, latex_provider, file_provider]"
      example_context example_popup "[Rich ''frac'' ''frac{#}{#}'' (Some \<lparr>line = 0, ch = 3\<rparr>)]"]
  by (simp add: latex_provider_def word_provider_def file_provider_def context_for_def
      example_context_def example_popup_def getSuggestions_def calls_made_def)

text \<open>
  C2, as the claim states it, fails: \<open>getSuggestions\<close> has no handler around the call of
  a provider. With a first source that throws and a second that would return two
  candidates, the method ends with the exception of the first, returns no candidates, and
  never calls the second.
\<close>

theorem getSuggestions_isolation_counterexample:
  "fst (getSuggestions [throwing_provider, word_provider] example_context example_popup)
     = Inl (Thrown ''broken source'')
   \<and> fst (getSuggestions [throwing_provider, word_provider] example_context example_popup)
     \<noteq> Inr [Plain ''query'', Plain ''quest'']
   \<and> calls_made example_popup
        (snd (getSuggestions [throwing_provider, word_provider] example_context example_popup))
     = [CallProvider 0]"
  by (simp add: ex_defs)

text \<open>
  C2, amended. If the provider at position \<open>k\<close> throws for this trigger and is among the
  providers that \<open>getSuggestions\<close> calls, then \<open>getSuggestions\<close> ends with that exception
  instead of a list of candidates, and the providers it has called are exactly those at
  positions \<open>0\<close> to \<open>k\<close>: none after the failing one.
\<close>

theorem getSuggestions_throw_propagates:
  assumes "k < length PROVIDERS"
    and "provider_getSuggestions (PROVIDERS ! k) (context_for context this) (settings this) = Inl e"
    and "CallProvider k \<in> set (calls_made this (snd (getSuggestions PROVIDERS context this)))"
  shows "fst (getSuggestions PROVIDERS context this) = Inl e
       \<and> calls_made this (snd (getSuggestions PROVIDERS context this)) = map CallProvider [0..<Suc k]"
proof -
  from assms(3) have "CallProvider (0 + k) \<in> set (drop (length (trace this))
      (trace (snd (provider_loop 0 PROVIDERS context [] this))))"
    by (simp add: getSuggestions_snd calls_made_def)
  from provider_loop_throw [OF assms(1,2) this]
  show ?thesis
    by (simp add: getSuggestions_snd getSuggestions_fst_Inl calls_made_def)
qed

theorem getSuggestions_throw_propagates_witness:
  "(1::nat) < length [word_provider, throwing_provider, file_provider]
   \<and> provider_getSuggestions ([word_provider, throwing_provider, file_provider] ! 1)
        (context_for example_context example_popup) (settings example_popup)
      = Inl (Thrown ''broken source'')
   \<and> CallProvider 1 \<in> set (calls_made example_popup
        (snd (getSuggestions [word_provider, throwing_provider, file_provider]
                example_context example_popup)))
   \<and> fst (getSuggestions [word_provider, throwing_provider, file_provider]
            example_context example_popup) = Inl (Thrown ''broken source'')
   \<and> calls_made example_popup
        (snd (getSuggestions [word_provider, throwing_provider, file_provider]
                example_context example_popup)) = [CallProvider 0, CallProvider 1]"
  using getSuggestions_throw_propagates [of 1 "[word_provider, throwing_provider, file_provider]"
      example_context example_popup "Thrown ''broken source''"]
  by (simp add: ex_defs)

text \<open>
  C4. If no provider of the list is flagged \<open>blocksAllOtherProviders\<close> and every provider
  returns a list of candidates for this trigger (\<open>xss\<close> holds the returned lists, in
  priority order), then \<open>getSuggestions\<close> returns the concatenation of these lists in
  that order, each list in its own order, having called every provider once, in order.
\<close>

theorem getSuggestions_concat_in_order:
  assumes "\<forall>p \<in> set PROVIDERS. \<not> blocksAllOtherProviders p"
    and "list_all2 (\<lambda>p xs. provider_getSuggestions p (context_for context this) (settings this) = Inr xs)
           PROVIDERS xss"
  shows "fst (getSuggestions PROVIDERS context this) = Inr (concat xss)
       \<and> calls_made this (snd (getSuggestions PROVIDERS context this))
           = map CallProvider [0..<length PROVIDERS]"
proof -
  from assms have "list_all2 (\<lambda>p xs. \<not> blocksAllOtherProviders p
      \<and> provider_getSuggestions p (context_for context this) (settings this) = Inr xs) PROVIDERS xss"
    by (auto simp: list_all2_conv_all_nth)
  from provider_loop_no_block [OF this refl refl, of 0 "[]"]
  show ?thesis by (simp add: getSuggestions_def calls_made_def)
qed

theorem getSuggestions_concat_in_order_witness:
  "\<not> blocksAllOtherProviders word_provider \<and> \<not> blocksAllOtherProviders file_provider
   \<and> list_all2 (\<lambda>p xs. provider_getSuggestions p (context_for example_context example_popup)
          (settings example_popup) = Inr xs)
        [word_provider, file_provider, word_provider]
        [[Plain ''query'', Plain ''quest''], [Plain ''quiet''], [Plain ''query'', Plain ''quest'']]
   \<and> fst (getSuggestions [word_provider, file_provider, word_provider] example_context example_popup)
       = Inr [Plain ''query'', Plain ''quest'', Plain ''quiet'', Plain ''query'', Plain ''quest'']
   \<and> calls_made example_popup
        (snd (getSuggestions [word_provider, file_provider, word_provider]
                example_context example_popup))
       = [CallProvider 0, CallProvider 1, CallProvider 2]"
  using getSuggestions_concat_in_order [of "[word_provider, file_provider, word_provider]"
      example_context example_popup
      "[[Plain ''query'', Plain ''quest''], [Plain ''quiet''], [Plain ''query'', Plain ''quest'']]"]
  by (simp add: ex_defs)

text \<open>
  C6. When the loop of \<open>getSuggestions\<close> leaves through its \<open>break\<close> (line 70) with the
  accumulated candidates \<open>s\<close>, these are the result, and \<open>this.context.start\<close> has been
  assigned every \<open>overrideStart\<close> of \<open>s\<close> in turn, plain strings and candidates without
  one skipped: it ends as the last \<open>overrideStart\<close> in \<open>s\<close>, and is unchanged when \<open>s\<close>
  has none; \<open>end\<close> and \<open>query\<close> are unchanged. When the loop does not leave through the
  \<open>break\<close>, \<open>this.context\<close> is unchanged, whatever \<open>overrideStart\<close> the candidates
  carry.
\<close>

theorem getSuggestions_overrideStart_only_on_break:
  "(fst (provider_loop 0 PROVIDERS context [] this) = Inr (Broke s) \<longrightarrow>
      fst (getSuggestions PROVIDERS context this) = Inr s
      \<and> context_obj (snd (getSuggestions PROVIDERS context this)) =
          (case last_overrideStart s of
             None \<Rightarrow> context_obj this
           | Some p \<Rightarrow> (context_obj this)\<lparr>start := p\<rparr>))
   \<and> ((\<forall>s. fst (provider_loop 0 PROVIDERS context [] this) \<noteq> Inr (Broke s)) \<longrightarrow>
        context_obj (snd (getSuggestions PROVIDERS context this)) = context_obj this)"
proof -
  obtain res t1 where r: "provider_loop 0 PROVIDERS context [] this = (res, t1)"
    by (cases "provider_loop 0 PROVIDERS context [] this") auto
  have c: "context_obj (snd (getSuggestions PROVIDERS context this)) = context_obj t1"
    using r by (simp add: getSuggestions_snd)
  show ?thesis
  proof (intro conjI impI)
    assume a: "fst (provider_loop 0 PROVIDERS context [] this) = Inr (Broke s)"
    with r have res: "res = Inr (Broke s)" by simp
    with r show "fst (getSuggestions PROVIDERS context this) = Inr s"
      by (simp add: getSuggestions_def)
    from provider_loop_context [OF r] res c
    show "context_obj (snd (getSuggestions PROVIDERS context this)) =
            (case last_overrideStart s of
               None \<Rightarrow> context_obj this
             | Some p \<Rightarrow> (context_obj this)\<lparr>start := p\<rparr>)"
      by simp
  next
    assume "\<forall>s. fst (provider_loop 0 PROVIDERS context [] this) \<noteq> Inr (Broke s)"
    with r have "\<forall>s. res \<noteq> Inr (Broke s)" by simp
    with provider_loop_context [OF r] c
    show "context_obj (snd (getSuggestions PROVIDERS context this)) = context_obj this"
      by (auto split: sum.splits loop_result.splits)
  qed
qed

theorem getSuggestions_overrideStart_only_on_break_witness:
  "fst (provider_loop 0 [word_provider, latex_provider, file_provider] example_context []
          example_popup)
     = Inr (Broke [Plain ''query'', Plain ''quest'',
                   Rich ''frac'' ''frac{#}{#}'' (Some \<lparr>line = 0, ch = 3\<rparr>)])
   \<and> context_obj (snd (getSuggestions [word_provider, latex_provider, file_provider]
        example_context example_popup))
     = \<lparr>start = \<lparr>line = 0, ch = 3\<rparr>, end_pos = \<lparr>line = 0, ch = 6\<rparr>, query = ''qu''\<rparr>
   \<and> fst (provider_loop 0 [word_provider, file_provider] example_context [] example_popup)
     = Inr (Completed [Plain ''query'', Plain ''quest'', Plain ''quiet''])
   \<and> context_obj (snd (getSuggestions [word_provider, file_provider]
        example_context example_popup))
     = \<lparr>start = \<lparr>line = 0, ch = 4\<rparr>, end_pos = \<lparr>line = 0, ch = 6\<rparr>, query = ''qu''\<rparr>"
  using getSuggestions_overrideStart_only_on_break
      [of "[word_provider, latex_provider, file_provider]" example_context example_popup
          "[Plain ''query'', Plain ''quest'',
            Rich ''frac'' ''frac{#}{#}'' (Some \<lparr>line = 0, ch = 3\<rparr>)]"]
    getSuggestions_overrideStart_only_on_break
      [of "[word_provider, file_provider]" example_context example_popup "[]"]
  by (simp add: ex_defs)

subsection \<open>Claims about acceptance\<close>

text \<open>
  What \<open>selectSuggestion\<close> calls, in order: \<open>replaceRange\<close>, then one of
  \<open>handleSnippet\<close>, \<open>console.log\<close> and \<open>setCursor\<close>, then \<open>close\<close>.
\<close>

lemma selectSuggestion_calls:
  "calls_made this (selectSuggestion v this) =
     ReplaceRange (getSuggestionReplacement v) (insertion_start v this)
        (end_pos (context_obj this))
     # (if contains (getSuggestionReplacement v) CHR ''#''
            \<or> contains (getSuggestionReplacement v) CHR ''~''
        then (if \<not> disableSnippets this
              then HandleSnippet (getSuggestionReplacement v) (insertion_start v this)
              else ConsoleLog [''Completr: Please enable Live Preview mode to use snippets''])
        else SetCursor ((insertion_start v this)
               \<lparr>ch := ch (insertion_start v this)
                        + int (length (getSuggestionReplacement v))\<rparr>))
     # [Close]"
  by (simp add: selectSuggestion_def calls_made_def Let_def)

lemma selectSuggestion_fields:
  "justClosed (selectSuggestion v this)"
  "context_obj (selectSuggestion v this) = context_obj this"
  "settings (selectSuggestion v this) = settings this"
  "characterRegex (selectSuggestion v this) = characterRegex this"
  by (simp_all add: selectSuggestion_def Let_def)

text \<open>
  C5. Accepting a candidate calls \<open>replaceRange\<close> exactly once, first of all its calls,
  with the candidate's replacement text and the span that runs from the candidate's
  \<open>overrideStart\<close> when it has one, and from \<open>this.context.start\<close> when it has none or is
  a plain string, to \<open>this.context.end\<close>. No other span is replaced by the method, and
  \<open>this.context\<close> is left as it was.
\<close>

theorem selectSuggestion_replaces_span:
  "filter is_ReplaceRange (calls_made this (selectSuggestion (Rich d r (Some p)) this))
     = [ReplaceRange r p (end_pos (context_obj this))]
   \<and> filter is_ReplaceRange (calls_made this (selectSuggestion (Rich d r None) this))
     = [ReplaceRange r (start (context_obj this)) (end_pos (context_obj this))]
   \<and> filter is_ReplaceRange (calls_made this (selectSuggestion (Plain r) this))
     = [ReplaceRange r (start (context_obj this)) (end_pos (context_obj this))]
   \<and> hd (calls_made this (selectSuggestion v this))
     = ReplaceRange (getSuggestionReplacement v) (insertion_start v this)
         (end_pos (context_obj this))
   \<and> context_obj (selectSuggestion v this) = context_obj this"
  by (simp add: selectSuggestion_calls selectSuggestion_fields)

theorem selectSuggestion_replaces_span_witness:
  "filter is_ReplaceRange (calls_made example_popup
      (selectSuggestion (Rich ''frac'' ''frac{#}{#}'' (Some \<lparr>line = 0, ch = 3\<rparr>)) example_popup))
     = [ReplaceRange ''frac{#}{#}'' \<lparr>line = 0, ch = 3\<rparr> \<lparr>line = 0, ch = 6\<rparr>]
   \<and> filter is_ReplaceRange (calls_made example_popup
      (selectSuggestion (Plain ''query'') example_popup))
     = [ReplaceRange ''query'' \<lparr>line = 0, ch = 4\<rparr> \<lparr>line = 0, ch = 6\<rparr>]"
  using selectSuggestion_replaces_span [where this = example_popup and d = "''frac''"
      and r = "''frac{#}{#}''" and p = "\<lparr>line = 0, ch = 3\<rparr>" and v = "Plain ''query''"]
    selectSuggestion_replaces_span [where this = example_popup and d = "''query''"
      and r = "''query''" and p = "\<lparr>line = 0, ch = 3\<rparr>" and v = "Plain ''query''"]
  by (simp add: example_popup_eq example_context_def)

text \<open>
  C7. When the replacement text contains \<open>#\<close> or \<open>~\<close> and snippets are disabled, the
  calls of \<open>selectSuggestion\<close> are exactly: the replacement of the span, then the
  notice on the console, then \<open>close\<close>. The snippet manager is not called, and nothing
  after the replacement touches the editor.
\<close>

theorem selectSuggestion_snippets_disabled:
  assumes "contains (getSuggestionReplacement v) CHR ''#''
           \<or> contains (getSuggestionReplacement v) CHR ''~''"
    and "disableSnippets this"
  shows "calls_made this (selectSuggestion v this) =
           [ReplaceRange (getSuggestionReplacement v) (insertion_start v this)
              (end_pos (context_obj this)),
            ConsoleLog [''Completr: Please enable Live Preview mode to use snippets''],
            Close]"
  using assms by (simp add: selectSuggestion_calls)

theorem selectSuggestion_snippets_disabled_witness:
  "(contains (getSuggestionReplacement (Rich ''frac'' ''frac{#}{#}'' None)) CHR ''#''
    \<or> contains (getSuggestionReplacement (Rich ''frac'' ''frac{#}{#}'' None)) CHR ''~'')
   \<and> disableSnippets (example_popup\<lparr>disableSnippets := True\<rparr>)
   \<and> calls_made (example_popup\<lparr>disableSnippets := True\<rparr>)
        (selectSuggestion (Rich ''frac'' ''frac{#}{#}'' None)
           (example_popup\<lparr>disableSnippets := True\<rparr>))
      = [ReplaceRange ''frac{#}{#}'' \<lparr>line = 0, ch = 4\<rparr> \<lparr>line = 0, ch = 6\<rparr>,
         ConsoleLog [''Completr: Please enable Live Preview mode to use snippets''],
         Close]"
  using selectSuggestion_snippets_disabled [of "Rich ''frac'' ''frac{#}{#}'' None"
      "example_popup\<lparr>disableSnippets := True\<rparr>"]
  by (simp add: example_popup_eq example_context_def contains_def)

text \<open>
  C10. Among the calls of \<open>selectSuggestion\<close>: the snippet path (\<open>handleSnippet\<close>, or the
  console notice) is taken if and only if the replacement contains \<open>#\<close> or \<open>~\<close>,
  \<open>handleSnippet\<close> when snippets are enabled and the notice when they are disabled;
  \<open>setCursor\<close> is called if and only if the replacement contains neither, and then with
  the insertion start moved right by the length of the replacement. So an acceptance on
  the snippet path with snippets disabled does not reposition the cursor.
\<close>

theorem selectSuggestion_snippet_or_cursor:
  fixes v :: suggestion and this :: "'r popup"
  defines "r \<equiv> getSuggestionReplacement v"
    and "s \<equiv> insertion_start v this"
    and "calls \<equiv> calls_made this (selectSuggestion v this)"
  shows "(HandleSnippet r s \<in> set calls
            \<or> ConsoleLog [''Completr: Please enable Live Preview mode to use snippets''] \<in> set calls)
           = (contains r CHR ''#'' \<or> contains r CHR ''~'')
       \<and> (HandleSnippet r s \<in> set calls)
           = ((contains r CHR ''#'' \<or> contains r CHR ''~'') \<and> \<not> disableSnippets this)
       \<and> (ConsoleLog [''Completr: Please enable Live Preview mode to use snippets''] \<in> set calls)
           = ((contains r CHR ''#'' \<or> contains r CHR ''~'') \<and> disableSnippets this)
       \<and> (\<exists>p. SetCursor p \<in> set calls) = (\<not> (contains r CHR ''#'' \<or> contains r CHR ''~''))
       \<and> (\<forall>p. SetCursor p \<in> set calls \<longrightarrow> p = s\<lparr>ch := ch s + int (length r)\<rparr>)
       \<and> (\<not> (contains r CHR ''#'' \<or> contains r CHR ''~'')
            \<longrightarrow> SetCursor (s\<lparr>ch := ch s + int (length r)\<rparr>) \<in> set calls)"
  unfolding r_def s_def calls_def
  by (auto simp: selectSuggestion_calls)

theorem selectSuggestion_snippet_or_cursor_witness:
  "calls_made example_popup (selectSuggestion (Plain ''query'') example_popup)
     = [ReplaceRange ''query'' \<lparr>line = 0, ch = 4\<rparr> \<lparr>line = 0, ch = 6\<rparr>,
        SetCursor \<lparr>line = 0, ch = 9\<rparr>, Close]
   \<and> SetCursor \<lparr>line = 0, ch = 9\<rparr>
        \<in> set (calls_made example_popup (selectSuggestion (Plain ''query'') example_popup))
   \<and> HandleSnippet ''a~b'' \<lparr>line = 0, ch = 4\<rparr>
        \<in> set (calls_made example_popup (selectSuggestion (Plain ''a~b'') example_popup))
   \<and> \<not> (\<exists>p. SetCursor p
        \<in> set (calls_made (example_popup\<lparr>disableSnippets := True\<rparr>)
                 (selectSuggestion (Plain ''a#b'') (example_popup\<lparr>disableSnippets := True\<rparr>))))"
  using selectSuggestion_snippet_or_cursor [of "Plain ''query''" example_popup]
    selectSuggestion_snippet_or_cursor [of "Plain ''a~b''" example_popup]
    selectSuggestion_snippet_or_cursor [of "Plain ''a#b''" "example_popup\<lparr>disableSnippets := True\<rparr>"]
  by (simp add: example_popup_eq example_context_def contains_def selectSuggestion_calls)

subsection \<open>Claims about the anti-reopen latch\<close>

text \<open>
  C8. After any acceptance the latch \<open>justClosed\<close> is set. The next call of
  \<open>onTrigger\<close>, whatever the cursor and the editor, returns \<open>null\<close>, clears the latch
  and changes nothing else (the matcher is not run). The call after that one is not
  suppressed: it never returns \<open>null\<close>, and it is the ordinary trigger detection, that is,
  the matcher is run and its query and separator decide the result.
\<close>

theorem anti_reopen_latch:
  fixes E :: "'r regexp_engine" and M :: "('e, 'r) matcher" and this :: "'r popup"
    and v :: suggestion
  defines "this1 \<equiv> selectSuggestion v this"
  shows "justClosed this1
       \<and> onTrigger E M cursor1 editor1 this1 = (Inr None, this1\<lparr>justClosed := False\<rparr>)
       \<and> fst (onTrigger E M cursor2 editor2 (snd (onTrigger E M cursor1 editor1 this1))) \<noteq> Inr None
       \<and> onTrigger E M cursor2 editor2 (snd (onTrigger E M cursor1 editor1 this1)) =
           (case M editor2 cursor2 (charPredicate E) (maxLookBackDistance (settings this))
                   (this1\<lparr>justClosed := False\<rparr>) of
              (Inl e, t) \<Rightarrow> (Inl e, t)
            | (Inr (q, sep), t) \<Rightarrow>
                (Inr (Some \<lparr>start = cursor2\<lparr>ch := ch cursor2 - int (length q)\<rparr>,
                            end_pos = cursor2, query = q\<rparr>),
                 t\<lparr>separatorChar := Some sep\<rparr>))"
proof -
  have j: "justClosed this1"
    by (simp add: this1_def selectSuggestion_fields)
  then have first: "onTrigger E M cursor1 editor1 this1 = (Inr None, this1\<lparr>justClosed := False\<rparr>)"
    by (simp add: onTrigger_def)
  have s: "settings this1 = settings this"
    by (simp add: this1_def selectSuggestion_fields)
  have second: "onTrigger E M cursor2 editor2 (this1\<lparr>justClosed := False\<rparr>) =
           (case M editor2 cursor2 (charPredicate E) (maxLookBackDistance (settings this))
                   (this1\<lparr>justClosed := False\<rparr>) of
              (Inl e, t) \<Rightarrow> (Inl e, t)
            | (Inr (q, sep), t) \<Rightarrow>
                (Inr (Some \<lparr>start = cursor2\<lparr>ch := ch cursor2 - int (length q)\<rparr>,
                            end_pos = cursor2, query = q\<rparr>),
                 t\<lparr>separatorChar := Some sep\<rparr>))"
    by (simp add: onTrigger_def s)
  have "fst (onTrigger E M cursor2 editor2 (this1\<lparr>justClosed := False\<rparr>)) \<noteq> Inr None"
    unfolding second by (simp split: prod.splits sum.splits)
  with j first second show ?thesis by simp
qed

theorem anti_reopen_latch_witness:
  "justClosed (selectSuggestion (Plain ''query'') example_popup)
   \<and> fst (onTrigger example_engine matchWordBackwards \<lparr>line = 0, ch = 9\<rparr> [''The query'']
        (selectSuggestion (Plain ''query'') example_popup)) = Inr None
   \<and> \<not> justClosed (snd (onTrigger example_engine matchWordBackwards \<lparr>line = 0, ch = 9\<rparr>
        [''The query''] (selectSuggestion (Plain ''query'') example_popup)))
   \<and> fst (onTrigger example_engine matchWordBackwards \<lparr>line = 0, ch = 12\<rparr> [''The query is'']
        (snd (onTrigger example_engine matchWordBackwards \<lparr>line = 0, ch = 9\<rparr> [''The query'']
           (selectSuggestion (Plain ''query'') example_popup))))
     = Inr (Some \<lparr>start = \<lparr>line = 0, ch = 10\<rparr>, end_pos = \<lparr>line = 0, ch = 12\<rparr>,
                  query = ''is''\<rparr>)"
  using anti_reopen_latch [of "Plain ''query''" example_popup example_engine matchWordBackwards
      "\<lparr>line = 0, ch = 9\<rparr>" "[''The query'']" "\<lparr>line = 0, ch = 12\<rparr>" "[''The query is'']"]
  by (simp add: example_popup_eq example_settings_def matchWordBackwards_def line_text_def
      charPredicate_def getCharacterRegex_def example_engine_def selectSuggestion_def
      contains_def Let_def onTrigger_def scan_backwards_Cons example_context_def)

subsection \<open>Claims about the accept-key binder\<close>

text \<open>
  One call of \<open>setInsertionKey\<close>: the handler kept in \<open>insertionKeybindRegistration\<close> is
  taken out of the scope (nothing, when the field is \<open>undefined\<close>), then the new handler
  is appended.
\<close>

lemma setInsertionKey_keys:
  "keys (scope (setInsertionKey k t)) =
     keys (unregister (insertionKeybindRegistration t) (scope t))
     @ [\<lparr>handler_id = fresh (scope t), modifiers = [], key = k, func = UseSelectedItem\<rparr>]"
  by (cases "insertionKeybindRegistration t")
     (simp_all add: setInsertionKey_def disableInsertionKey_def register_def unregister_def Let_def)

text \<open>
  The invariant of the binder: the handlers of the scope are older than the next new
  object, and the accept bindings in the scope are exactly the handler kept in
  \<open>insertionKeybindRegistration\<close>.
\<close>

lemma setInsertionKey_step:
  assumes wf: "\<forall>h \<in> set (keys (scope t)). handler_id h < fresh (scope t)"
    and inv: "accept_bindings (scope t) =
                (case insertionKeybindRegistration t of None \<Rightarrow> [] | Some h \<Rightarrow> [h])"
  shows "\<exists>h. insertionKeybindRegistration (setInsertionKey k t) = Some h
             \<and> key h = k
             \<and> accept_bindings (scope (setInsertionKey k t)) = [h]
             \<and> (\<forall>h \<in> set (keys (scope (setInsertionKey k t))).
                   handler_id h < fresh (scope (setInsertionKey k t)))"
proof (cases "insertionKeybindRegistration t")
  case None
  with wf inv show ?thesis
    by (auto simp: setInsertionKey_def disableInsertionKey_def register_def accept_bindings_def
        Let_def less_Suc_eq)
next
  case (Some h0)
  let ?P = "\<lambda>k. handler_id k \<noteq> handler_id h0"
  let ?Q = "\<lambda>h. func h = UseSelectedItem"
  have "filter ?Q (filter ?P (keys (scope t))) = filter ?P (filter ?Q (keys (scope t)))"
    by (simp add: conj_commute)
  also have "\<dots> = []"
    using inv Some by (simp add: accept_bindings_def)
  finally have gone: "filter ?Q (filter ?P (keys (scope t))) = []" .
  with wf Some show ?thesis
    by (auto simp: setInsertionKey_def disableInsertionKey_def register_def unregister_def
        accept_bindings_def Let_def less_Suc_eq)
qed

lemma constructor_binder:
  assumes "\<forall>h \<in> set (keys (scope this0)). handler_id h < fresh (scope this0) \<and> func h = HostCallback"
    and "insertionKeybindRegistration this0 = None"
  shows "\<exists>h. insertionKeybindRegistration (constructor le st this0) = Some h
             \<and> key h = insertionKey st
             \<and> accept_bindings (scope (constructor le st this0)) = [h]
             \<and> (\<forall>h \<in> set (keys (scope (constructor le st this0))).
                   handler_id h < fresh (scope (constructor le st this0)))"
proof -
  let ?t = "this0\<lparr>disableSnippets := le, settings := st\<rparr>"
  let ?t2 = "?t\<lparr>scope := unregister (find (\<lambda>k. key k = ''Enter'') (keys (scope ?t))) (scope ?t)\<rparr>"
  have c: "constructor le st this0 = setInsertionKey (insertionKey st) ?t2"
    by (simp add: constructor_def Let_def)
  have wf: "\<forall>h \<in> set (keys (scope ?t2)). handler_id h < fresh (scope ?t2)"
    using assms(1) by (auto simp: unregister_def split: option.splits)
  have "\<forall>h \<in> set (keys (scope ?t2)). func h = HostCallback"
    using assms(1) by (auto simp: unregister_def split: option.splits)
  then have "accept_bindings (scope ?t2) = []"
    by (auto simp: accept_bindings_def filter_empty_conv)
  with assms(2) have inv: "accept_bindings (scope ?t2) =
      (case insertionKeybindRegistration ?t2 of None \<Rightarrow> [] | Some h \<Rightarrow> [h])"
    by simp
  from setInsertionKey_step [OF wf inv, of "insertionKey st"] c show ?thesis by simp
qed

text \<open>
  C9. Take the object that \<open>super(app)\<close> leaves, whose scope holds only handlers of the
  host and whose \<open>insertionKeybindRegistration\<close> is undefined. After the constructor and
  any sequence \<open>ks\<close> of further calls of \<open>setInsertionKey\<close>, exactly one accept binding is
  active in the scope: it is the handler kept in \<open>insertionKeybindRegistration\<close>, and its
  key is the key of the last call (the configured key when \<open>ks\<close> is empty). So every
  call removes the binding of the call before it, and after rebinding from \<open>K1\<close> to
  \<open>K2\<close> the binding for \<open>K1\<close> is gone.
\<close>

theorem accept_key_single_binding:
  assumes "\<forall>h \<in> set (keys (scope this0)). handler_id h < fresh (scope this0) \<and> func h = HostCallback"
    and "insertionKeybindRegistration this0 = None"
  shows "\<exists>h. insertionKeybindRegistration
                (foldl (\<lambda>t k. setInsertionKey k t) (constructor le st this0) ks) = Some h
             \<and> accept_bindings (scope
                (foldl (\<lambda>t k. setInsertionKey k t) (constructor le st this0) ks)) = [h]
             \<and> key h = last (insertionKey st # ks)"
proof -
  let ?run = "\<lambda>ks. foldl (\<lambda>t k. setInsertionKey k t) (constructor le st this0) ks"
  have "\<exists>h. insertionKeybindRegistration (?run ks) = Some h
             \<and> key h = last (insertionKey st # ks)
             \<and> accept_bindings (scope (?run ks)) = [h]
             \<and> (\<forall>h \<in> set (keys (scope (?run ks))). handler_id h < fresh (scope (?run ks)))"
  proof (induction ks rule: rev_induct)
    case Nil
    from constructor_binder [OF assms] show ?case by simp
  next
    case (snoc k ks)
    then obtain h where h: "insertionKeybindRegistration (?run ks) = Some h"
      "accept_bindings (scope (?run ks)) = [h]"
      "\<forall>h \<in> set (keys (scope (?run ks))). handler_id h < fresh (scope (?run ks))"
      by blast
    from h(1,2) have inv: "accept_bindings (scope (?run ks)) =
        (case insertionKeybindRegistration (?run ks) of None \<Rightarrow> [] | Some h \<Rightarrow> [h])"
      by simp
    from setInsertionKey_step [OF h(3) inv, of k] show ?case by simp
  qed
  then show ?thesis by blast
qed

theorem accept_key_single_binding_witness:
  "insertionKeybindRegistration
     (foldl (\<lambda>t k. setInsertionKey k t) (constructor False example_settings super_object)
        [''Tab'', ''Enter'', ''Tab''])
     = Some \<lparr>handler_id = 7, modifiers = [], key = ''Tab'', func = UseSelectedItem\<rparr>
   \<and> accept_bindings (scope
     (foldl (\<lambda>t k. setInsertionKey k t) (constructor False example_settings super_object)
        [''Tab'', ''Enter'', ''Tab'']))
     = [\<lparr>handler_id = 7, modifiers = [], key = ''Tab'', func = UseSelectedItem\<rparr>]
   \<and> map key (keys (scope
     (foldl (\<lambda>t k. setInsertionKey k t) (constructor False example_settings super_object)
        [''Tab'', ''Enter'', ''Tab''])))
     = [''ArrowUp'', ''ArrowDown'', ''Escape'', ''Tab'']"
  using accept_key_single_binding [of super_object False example_settings "[''Tab'', ''Enter'', ''Tab'']"]
  by (simp add: constructor_def setInsertionKey_def disableInsertionKey_def
      register_def unregister_def super_object_def host_scope_def example_settings_def
      accept_bindings_def Let_def)

subsection \<open>Claims about the character-class cache\<close>

text \<open>
  No method assigns \<open>this.characterRegex\<close>: it is \<open>undefined\<close> after the constructor
  and stays so, and with it undefined every call of \<open>getCharacterRegex\<close> compiles.
\<close>

lemma getCharacterRegex_unset_compiles:
  "characterRegex this = None \<Longrightarrow>
     calls_made this (snd (getCharacterRegex E this))
       = [NewRegExp (''['' @ characterRegex_setting (settings this) @ '']'') ''u'']"
  by (simp add: getCharacterRegex_def calls_made_def Let_def split: sum.splits)

lemma characterRegex_never_assigned:
  "characterRegex (setInsertionKey k this) = characterRegex this"
  "characterRegex (constructor le st this) = characterRegex this"
  "characterRegex (selectSuggestion v this) = characterRegex this"
  "characterRegex (preventNextTrigger this) = characterRegex this"
  by (simp_all add: setInsertionKey_def disableInsertionKey_def constructor_def
      selectSuggestion_def preventNextTrigger_def Let_def split: prod.splits)

lemma characterRegex_foldl_apply [simp]:
  "characterRegex (foldl apply_overrideStart t xs) = characterRegex t"
proof (induction xs arbitrary: t)
  case Nil then show ?case by simp
next
  case (Cons x xs)
  then show ?case by (cases "(t, x)" rule: apply_overrideStart.cases) auto
qed

lemma characterRegex_provider_loop:
  "characterRegex (snd (provider_loop i ps c acc t)) = characterRegex t"
  by (induction ps arbitrary: i acc t) (auto simp: Let_def split: sum.splits)

lemma characterRegex_getSuggestions:
  "characterRegex (snd (getSuggestions ps c t)) = characterRegex t"
  by (simp add: getSuggestions_snd characterRegex_provider_loop)

lemma characterRegex_charPredicate:
  "characterRegex (snd (charPredicate E c t)) = characterRegex t"
  using getCharacterRegex_keeps_key [of E t]
  by (auto simp: charPredicate_def split: prod.splits sum.splits option.splits)

lemma characterRegex_scan_backwards:
  "characterRegex (snd (scan_backwards (charPredicate E) l n q t)) = characterRegex t"
proof (induction "charPredicate E" l n q t rule: scan_backwards.induct)
  case (3 c left n q s)
  obtain r s1 where p: "charPredicate E [c] s = (r, s1)"
    by (cases "charPredicate E [c] s") auto
  with characterRegex_charPredicate [of E "[c]" s] have k: "characterRegex s1 = characterRegex s"
    by simp
  show ?case
  proof (cases r)
    case (Inl e)
    with p k show ?thesis by simp
  next
    case (Inr b)
    with p k "3.hyps" show ?thesis
      by (cases b) auto
  qed
qed simp_all

lemma characterRegex_onTrigger:
  "characterRegex (snd (onTrigger E matchWordBackwards cursor editor t)) = characterRegex t"
  using characterRegex_scan_backwards
    [of E "rev (take (nat (ch cursor)) (line_text editor (line cursor)))"
        "maxLookBackDistance (settings t)" "[]" t]
  by (auto simp: onTrigger_def matchWordBackwards_def split: prod.splits sum.splits)

text \<open>
  C1, the code at a failing input. The configured pattern is \<open>a-zA-Z\<close> and does not
  change. The first call of \<open>getCharacterRegex\<close> compiles \<open>[a-zA-Z]\<close>; the second call,
  with the same configured pattern, calls \<open>new RegExp\<close> again instead of returning the
  matcher of the first call without compiling.
\<close>

theorem getCharacterRegex_recompiles_same_pattern:
  "characterRegex_setting (settings example_popup) = ''a-zA-Z''
   \<and> fst (getCharacterRegex example_engine example_popup) = Inr (Some ''[a-zA-Z]'')
   \<and> characterRegex_setting (settings (snd (getCharacterRegex example_engine example_popup)))
       = ''a-zA-Z''
   \<and> calls_made (snd (getCharacterRegex example_engine example_popup))
        (snd (getCharacterRegex example_engine
           (snd (getCharacterRegex example_engine example_popup))))
       = [NewRegExp ''[a-zA-Z]'' ''u'']"
  by (simp add: example_popup_eq example_settings_def getCharacterRegex_def example_engine_def
      calls_made_def Let_def)

end
